theory Spec2Isabelle
  imports Main "HOL-Library.Sublist"
begin

section \<open>Tables\<close>

text \<open>
  The program (\<^verbatim>\<open>merge_xlsx.py\<close>) works on pandas tables. A table is modelled by its
  column labels and its rows, each row being the list of its cells in column order. A
  cell is a text or the missing value that \<^verbatim>\<open>read_excel\<close> and \<^verbatim>\<open>concat\<close> put where a
  sheet or a table has no value; pandas compares missing values in the same position
  as equal, both in \<^verbatim>\<open>Series.equals\<close> and in \<^verbatim>\<open>drop_duplicates\<close>, so equality of rows is
  equality of cell lists.
\<close>

datatype cell = NaN | Text string

type_synonym row = "cell list"

record frame =
  columns :: "string list"
  rows :: "row list"

text \<open>
  What \<^verbatim>\<open>read_excel\<close> returns is rectangular and has pairwise distinct column labels
  (a repeated header is renamed with a numeric suffix on load).
\<close>

definition wf_frame :: "frame \<Rightarrow> bool" where
  "wf_frame df \<longleftrightarrow>
     distinct (columns df) \<and> list_all (\<lambda>r. length r = length (columns df)) (rows df)"

text \<open>\<^verbatim>\<open>pd.DataFrame()\<close>: no columns, no rows.\<close>

definition DataFrame :: frame where
  "DataFrame = \<lparr>columns = [], rows = []\<rparr>"

text \<open>\<^verbatim>\<open>df.empty\<close>: some axis has length 0.\<close>

definition empty :: "frame \<Rightarrow> bool" where
  "empty df \<longleftrightarrow> columns df = [] \<or> rows df = []"

text \<open>
  \<^verbatim>\<open>df[cols]\<close>: the columns labelled by \<open>cols\<close>, in the order of \<open>cols\<close> (every column
  carrying a requested label is taken), row order kept.
\<close>

definition positions :: "string list \<Rightarrow> string \<Rightarrow> nat list" where
  "positions labels c = filter (\<lambda>i. labels ! i = c) [0..<length labels]"

definition select_columns :: "frame \<Rightarrow> string list \<Rightarrow> frame" where
  "select_columns df cols =
     (let idxs = concat (map (positions (columns df)) cols)
      in \<lparr>columns = map (\<lambda>i. columns df ! i) idxs,
          rows = map (\<lambda>r. map (\<lambda>i. r ! i) idxs) (rows df)\<rparr>)"

text \<open>
  \<^verbatim>\<open>pd.concat([a, b], ignore_index=True)\<close>: the columns of \<open>a\<close> followed by the columns
  only \<open>b\<close> has; the rows of \<open>a\<close> followed by the rows of \<open>b\<close>, each aligned on the new
  columns by label, with the missing value where a table has no such column.
\<close>

definition reindex :: "string list \<Rightarrow> string list \<Rightarrow> row \<Rightarrow> row" where
  "reindex old new r =
     map (\<lambda>c. case map_of (zip old r) c of None \<Rightarrow> NaN | Some v \<Rightarrow> v) new"

definition concat_frames :: "frame \<Rightarrow> frame \<Rightarrow> frame" where
  "concat_frames a b =
     (let cols = columns a @ filter (\<lambda>c. c \<notin> set (columns a)) (columns b)
      in \<lparr>columns = cols,
          rows = map (reindex (columns a) cols) (rows a)
               @ map (reindex (columns b) cols) (rows b)\<rparr>)"

text \<open>
  \<^verbatim>\<open>df.drop_duplicates()\<close> is \<^verbatim>\<open>df[~df.duplicated()]\<close> with \<^verbatim>\<open>keep='first'\<close>: a row is
  marked when an equal row stands at a smaller position, and the unmarked rows are
  kept in their order.
\<close>

definition duplicated :: "'a list \<Rightarrow> bool list" where
  "duplicated xs = map (\<lambda>i. xs ! i \<in> set (take i xs)) [0..<length xs]"

definition drop_duplicates_rows :: "'a list \<Rightarrow> 'a list" where
  "drop_duplicates_rows xs = map snd (filter (\<lambda>(d, r). \<not> d) (zip (duplicated xs) xs))"

definition drop_duplicates :: "frame \<Rightarrow> frame" where
  "drop_duplicates df = df\<lparr>rows := drop_duplicates_rows (rows df)\<rparr>"

text \<open>
  The same scan written as a recursion that carries the rows already seen; the proofs
  go through it.
\<close>

fun keep_unseen :: "'a list \<Rightarrow> 'a list \<Rightarrow> 'a list" where
  "keep_unseen seen [] = []"
| "keep_unseen seen (r # rs) =
     (if r \<in> set seen then keep_unseen seen rs else r # keep_unseen (seen @ [r]) rs)"

section \<open>The merge\<close>

text \<open>
  The two required column labels of \<^verbatim>\<open>merge_xlsx_files\<close>, as the UTF-8 bytes of the
  source literals (the question column and the answer column).
\<close>

definition question_column :: string where
  "question_column = [CHR 0xE9, CHR 0xA1, CHR 0x8C, CHR 0xE7, CHR 0x9B, CHR 0xAE]"

definition answer_column :: string where
  "answer_column = [CHR 0xE7, CHR 0xAD, CHR 0x94, CHR 0xE6, CHR 0xA1, CHR 0x88]"

definition required_columns :: "string list" where
  "required_columns = [question_column, answer_column]"

text \<open>
  A file of the input folder: its name and what \<^verbatim>\<open>pd.read_excel\<close> does on it, which is
  to raise (with a message) or to return a table.
\<close>

datatype read_result = Raises string | Loaded frame

record source_file =
  file_name :: string
  read_excel :: read_result

text \<open>
  What the function prints, one constructor per \<^verbatim>\<open>print\<close> site (the source line in
  brackets). The file size printed after the export is left out.
\<close>

datatype message =
    FolderMissing string           \<comment> \<open>[39] the folder does not exist\<close>
  | NoXlsxFound string             \<comment> \<open>[46-47] no xlsx file in the folder\<close>
  | FoundFiles nat                 \<comment> \<open>[50-51] number of files found\<close>
  | Processing nat nat string      \<comment> \<open>[60] index, number of files, file name\<close>
  | FileContains nat nat           \<comment> \<open>[66] rows and columns of the loaded file\<close>
  | MissingColumns "string list" "string list"
                                   \<comment> \<open>[73-74] missing columns, columns found\<close>
  | Filtered                       \<comment> \<open>[79] the two columns were selected\<close>
  | MergeReport nat nat            \<comment> \<open>[113-114] duplicate count, rows after deduplication\<close>
  | ReadFailed string              \<comment> \<open>[117] the exception caught\<close>
  | Statistics nat nat nat         \<comment> \<open>[121-126] rows read, duplicates, rows left\<close>
  | Exported string "string list" nat
                                   \<comment> \<open>[132-135] output path, columns, rows\<close>
  | NothingToExport                \<comment> \<open>[137] no data to export\<close>

text \<open>The variables of the loop, and the console.\<close>

record state =
  all_data :: frame
  total_rows_before :: nat
  total_duplicates :: nat
  console :: "message list"

definition say :: "message \<Rightarrow> state \<Rightarrow> state" where
  "say m s = s\<lparr>console := console s @ [m]\<rparr>"

text \<open>
  Lines 93 to 105: the rows at positions \<open>before_merge\<close> up to \<open>after_concat\<close> are
  compared with the rows at positions below \<open>before_merge\<close>, only when there are any.
\<close>

definition is_duplicate :: "frame \<Rightarrow> nat \<Rightarrow> nat \<Rightarrow> bool" where
  "is_duplicate data before_merge idx =
     (let current_row = rows data ! idx
      in list_ex (\<lambda>x. x = current_row) (take before_merge (rows data)))"

definition count_duplicates :: "frame \<Rightarrow> nat \<Rightarrow> nat \<Rightarrow> nat" where
  "count_duplicates data before_merge after_concat =
     (if before_merge > 0
      then fold (\<lambda>idx duplicate_count.
                   if is_duplicate data before_merge idx then duplicate_count + 1
                   else duplicate_count)
             [before_merge..<after_concat] 0
      else 0)"

text \<open>
  The body of the loop (lines 60 to 118) for the \<open>i\<close>-th of \<open>n\<close> files. The only
  exception of the \<^verbatim>\<open>try\<close> block that is modelled is the one \<^verbatim>\<open>read_excel\<close> raises.
\<close>

definition process_file :: "nat \<Rightarrow> nat \<Rightarrow> source_file \<Rightarrow> state \<Rightarrow> state" where
  "process_file i n f s =
     (let s1 = say (Processing i n (file_name f)) s
      in case read_excel f of
           Raises e \<Rightarrow> say (ReadFailed e) s1
         | Loaded df \<Rightarrow>
             let rows_in_file = length (rows df);
                 s2 = say (FileContains rows_in_file (length (columns df))) s1;
                 missing_columns = filter (\<lambda>col. col \<notin> set (columns df)) required_columns
             in if missing_columns \<noteq> []
                then say (MissingColumns missing_columns (columns df)) s2
                else
                  let df' = select_columns df required_columns;
                      s3 = say Filtered s2;
                      s4 = s3\<lparr>total_rows_before := total_rows_before s3 + rows_in_file\<rparr>;
                      before_merge = length (rows (all_data s4));
                      s5 = s4\<lparr>all_data := concat_frames (all_data s4) df'\<rparr>;
                      after_concat = length (rows (all_data s5));
                      duplicate_count = count_duplicates (all_data s5) before_merge after_concat;
                      s6 = s5\<lparr>all_data := drop_duplicates (all_data s5)\<rparr>;
                      after_dedup = length (rows (all_data s6));
                      s7 = s6\<lparr>total_duplicates := total_duplicates s6 + duplicate_count\<rparr>
                  in say (MergeReport duplicate_count after_dedup) s7)"

text \<open>The loop of line 59 over the files, numbered from \<open>i\<close>.\<close>

fun process_files :: "nat \<Rightarrow> nat \<Rightarrow> source_file list \<Rightarrow> state \<Rightarrow> state" where
  "process_files i n [] s = s"
| "process_files i n (f # fs) s = process_files (Suc i) n fs (process_file i n f s)"

text \<open>The state at line 56, after the number of files has been printed.\<close>

definition initial :: "nat \<Rightarrow> state" where
  "initial n =
     \<lparr>all_data = DataFrame, total_rows_before = 0, total_duplicates = 0,
      console = [FoundFiles n]\<rparr>"

text \<open>
  \<^verbatim>\<open>merge_xlsx_files\<close>. The file system maps a folder path to the list of its xlsx
  files in the order \<^verbatim>\<open>glob\<close> yields them, or to nothing when the folder does not
  exist. A run ends at one of the two early returns (the \<^verbatim>\<open>return\<close> of line 40 after the
  folder was not found, the \<^verbatim>\<open>return\<close> of line 48 after no file was found) or after the
  export step; it leaves what was printed and the CSV file written, if any (path and
  table).

  A call of a Python function either raises an exception or returns a value. The
  function has no \<^verbatim>\<open>raise\<close> statement and no \<^verbatim>\<open>return\<close> with a value: each of its exits
  returns \<^verbatim>\<open>None\<close>, which is \<open>Inr ()\<close> below. \<open>NotFoundError\<close> stands for an exception
  reporting a missing folder, \<open>OtherError\<close> for any other exception.
\<close>

datatype early_return = ReturnLine40 | ReturnLine48

datatype exception = NotFoundError | OtherError string

record run =
  printed :: "message list"
  written :: "(string \<times> frame) option"
  ended :: "early_return + state"
  returned :: "exception + unit"

definition merge_xlsx_files ::
    "(string \<Rightarrow> source_file list option) \<Rightarrow> string \<Rightarrow> string \<Rightarrow> run" where
  "merge_xlsx_files filesystem input_folder output_file =
     (case filesystem input_folder of
        None \<Rightarrow>
          \<lparr>printed = [FolderMissing input_folder], written = None,
           ended = Inl ReturnLine40, returned = Inr ()\<rparr>
      | Some xlsx_files \<Rightarrow>
          if xlsx_files = []
          then \<lparr>printed = [NoXlsxFound input_folder], written = None,
                ended = Inl ReturnLine48, returned = Inr ()\<rparr>
          else
            let s = process_files 1 (length xlsx_files) xlsx_files
                      (initial (length xlsx_files));
                summary = console s @
                  [Statistics (total_rows_before s) (total_duplicates s)
                     (length (rows (all_data s)))]
            in if \<not> empty (all_data s)
               then \<lparr>printed = summary @
                       [Exported output_file (columns (all_data s))
                          (length (rows (all_data s)))],
                     written = Some (output_file, all_data s), ended = Inr s,
                     returned = Inr ()\<rparr>
               else \<lparr>printed = summary @ [NothingToExport], written = None,
                     ended = Inr s, returned = Inr ()\<rparr>)"

text \<open>
  A file is well-formed when it loads without error and has both required columns;
  it then contributes the rows of its table projected on the required columns.
\<close>

definition well_formed :: "source_file \<Rightarrow> bool" where
  "well_formed f =
     (case read_excel f of
        Raises e \<Rightarrow> False
      | Loaded df \<Rightarrow> list_all (\<lambda>col. col \<in> set (columns df)) required_columns)"

definition loaded_frame :: "source_file \<Rightarrow> frame" where
  "loaded_frame f = (case read_excel f of Raises e \<Rightarrow> DataFrame | Loaded df \<Rightarrow> df)"

definition projected_rows :: "source_file \<Rightarrow> row list" where
  "projected_rows f = rows (select_columns (loaded_frame f) required_columns)"

text \<open>The tables that \<^verbatim>\<open>read_excel\<close> can return for the files of a list.\<close>

definition wf_source :: "source_file \<Rightarrow> bool" where
  "wf_source f = (case read_excel f of Raises e \<Rightarrow> True | Loaded df \<Rightarrow> wf_frame df)"

definition wf_sources :: "source_file list \<Rightarrow> bool" where
  "wf_sources fs = list_all wf_source fs"

text \<open>
  What holds of \<open>all_data\<close> between two files: it is the table without columns and rows
  of line 54, or it has the two required columns and rows of two cells; and no row
  occurs twice.
\<close>

definition dataset_ok :: "frame \<Rightarrow> bool" where
  "dataset_ok d \<longleftrightarrow>
     (columns d = [] \<and> rows d = []
        \<or> columns d = required_columns \<and> list_all (\<lambda>r. length r = 2) (rows d))
     \<and> distinct (rows d)"

text \<open>
  The duplicate count of a file, as a number of rows of the file: those equal to a row
  of the rows \<open>prior\<close>.
\<close>

definition duplicates_of :: "row list \<Rightarrow> row list \<Rightarrow> nat" where
  "duplicates_of prior new = length (filter (\<lambda>r. r \<in> set prior) new)"

text \<open>What a file adds to the table and to the number of rows read.\<close>

definition accepted_rows :: "source_file \<Rightarrow> row list" where
  "accepted_rows f = (if well_formed f then projected_rows f else [])"

definition rows_read :: "source_file \<Rightarrow> nat" where
  "rows_read f = (if well_formed f then length (rows (loaded_frame f)) else 0)"

text \<open>The state of a run over \<open>files\<close> after its first \<open>k\<close> files.\<close>

definition after_files :: "source_file list \<Rightarrow> nat \<Rightarrow> state" where
  "after_files files k =
     process_files 1 (length files) (take k files) (initial (length files))"

section \<open>Sample files\<close>

text \<open>
  Two files with a common row (the second with its columns in another order and a
  third column), a file that repeats a row, a file with other column names, and a
  file that does not load.
\<close>

definition file_one :: source_file where
  "file_one = \<lparr>file_name = ''one.xlsx'', read_excel = Loaded
     \<lparr>columns = required_columns,
      rows = [[Text ''Q1'', Text ''A1''], [Text ''Q2'', Text ''A2'']]\<rparr>\<rparr>"

definition file_two :: source_file where
  "file_two = \<lparr>file_name = ''two.xlsx'', read_excel = Loaded
     \<lparr>columns = [answer_column, ''id'', question_column],
      rows = [[Text ''A1'', Text ''7'', Text ''Q1''], [Text ''A3'', NaN, Text ''Q3'']]\<rparr>\<rparr>"

definition file_twice :: source_file where
  "file_twice = \<lparr>file_name = ''twice.xlsx'', read_excel = Loaded
     \<lparr>columns = required_columns,
      rows = [[Text ''Q1'', Text ''A1''], [Text ''Q1'', Text ''A1'']]\<rparr>\<rparr>"

definition file_other_names :: source_file where
  "file_other_names = \<lparr>file_name = ''other.xlsx'', read_excel = Loaded
     \<lparr>columns = [''Question'', ''Ans''], rows = [[Text ''Q1'', Text ''A1'']]\<rparr>\<rparr>"

definition file_corrupt :: source_file where
  "file_corrupt = \<lparr>file_name = ''corrupt.xlsx'', read_excel = Raises ''not a zip file''\<rparr>"

definition folder_with :: "source_file list \<Rightarrow> string \<Rightarrow> source_file list option" where
  "folder_with files path = (if path = ''xlsx_files'' then Some files else None)"

section \<open>Deduplication keeps first occurrences\<close>

lemma upt_0_Suc_shift: "[0..<Suc n] = 0 # map Suc [0..<n]"
  by (simp add: upt_conv_Cons map_Suc_upt del: upt_Suc)

lemma mask_Cons:
  "map (\<lambda>i. (x # xs) ! i \<in> S \<union> set (take i (x # xs))) [0..<length (x # xs)]
   = (x \<in> S) # map (\<lambda>i. xs ! i \<in> insert x S \<union> set (take i xs)) [0..<length xs]"
proof -
  have "[0..<length (x # xs)] = 0 # map Suc [0..<length xs]"
    using upt_0_Suc_shift [of "length xs"] by simp
  then show ?thesis
    by (auto simp add: o_def simp del: upt_Suc)
qed

lemma keep_unseen_mask:
  "S = set seen \<Longrightarrow>
   map snd (filter (\<lambda>(d, r). \<not> d)
      (zip (map (\<lambda>i. xs ! i \<in> S \<union> set (take i xs)) [0..<length xs]) xs))
   = keep_unseen seen xs"
proof (induction xs arbitrary: seen S)
  case Nil
  show ?case by simp
next
  case (Cons x xs)
  show ?case
  proof (cases "x \<in> set seen")
    case True
    then have "insert x S = set seen"
      using Cons.prems by auto
    from Cons.IH [OF this] True Cons.prems show ?thesis
      by (simp only: mask_Cons zip_Cons_Cons filter.simps list.map keep_unseen.simps
            prod.case snd_conv simp_thms if_True if_False)
  next
    case False
    have "insert x S = set (seen @ [x])"
      using Cons.prems by auto
    from Cons.IH [OF this] False Cons.prems show ?thesis
      by (simp only: mask_Cons zip_Cons_Cons filter.simps list.map keep_unseen.simps
            prod.case snd_conv simp_thms if_True if_False)
  qed
qed

lemma drop_duplicates_rows_keep_unseen: "drop_duplicates_rows xs = keep_unseen [] xs"
  using keep_unseen_mask [of "{}" "[]" xs] by (simp add: drop_duplicates_rows_def duplicated_def)

lemma keep_unseen_cong: "set s = set t \<Longrightarrow> keep_unseen s xs = keep_unseen t xs"
proof (induction xs arbitrary: s t)
  case Nil
  show ?case by simp
next
  case (Cons x xs)
  have "set (s @ [x]) = set (t @ [x])"
    using Cons.prems by simp
  then have more: "keep_unseen (s @ [x]) xs = keep_unseen (t @ [x]) xs"
    by (rule Cons.IH)
  have same: "keep_unseen s xs = keep_unseen t xs"
    using Cons.prems by (rule Cons.IH)
  have "x \<in> set s \<longleftrightarrow> x \<in> set t"
    using Cons.prems by simp
  with more same show ?case
    by (simp only: keep_unseen.simps)
qed

lemma set_keep_unseen: "set (keep_unseen seen xs) = set xs - set seen"
  by (induction xs arbitrary: seen) auto

lemma distinct_keep_unseen: "distinct (keep_unseen seen xs)"
  by (induction xs arbitrary: seen) (auto simp: set_keep_unseen)

lemma keep_unseen_append:
  "keep_unseen seen (xs @ ys) = keep_unseen seen xs @ keep_unseen (seen @ xs) ys"
proof (induction xs arbitrary: seen)
  case Nil show ?case by simp
next
  case (Cons x xs)
  show ?case
  proof (cases "x \<in> set seen")
    case True
    then have "set (seen @ x # xs) = set (seen @ xs)" by auto
    then have "keep_unseen (seen @ x # xs) ys = keep_unseen (seen @ xs) ys"
      by (rule keep_unseen_cong)
    with True Cons.IH [of seen] show ?thesis by simp
  next
    case False
    with Cons.IH [of "seen @ [x]"] show ?thesis by simp
  qed
qed

lemma keep_unseen_id: "distinct xs \<Longrightarrow> set xs \<inter> set seen = {} \<Longrightarrow> keep_unseen seen xs = xs"
  by (induction xs arbitrary: seen) auto

lemma subseq_keep_unseen: "subseq (keep_unseen seen xs) xs"
  by (induction xs arbitrary: seen) auto

lemma keep_unseen_absorb:
  "keep_unseen [] (keep_unseen [] xs @ ys) = keep_unseen [] (xs @ ys)"
proof -
  have "keep_unseen [] (keep_unseen [] xs) = keep_unseen [] xs"
    by (rule keep_unseen_id) (simp_all add: distinct_keep_unseen)
  moreover have "keep_unseen (keep_unseen [] xs) ys = keep_unseen xs ys"
    by (rule keep_unseen_cong) (simp add: set_keep_unseen)
  ultimately show ?thesis
    by (simp add: keep_unseen_append)
qed


lemma drop_duplicates_rows_idem: "drop_duplicates_rows (drop_duplicates_rows xs) = drop_duplicates_rows xs"
  unfolding drop_duplicates_rows_keep_unseen
  by (rule keep_unseen_id) (simp_all add: distinct_keep_unseen)

lemma drop_duplicates_rows_distinct: "distinct (drop_duplicates_rows xs)"
  by (simp add: drop_duplicates_rows_keep_unseen distinct_keep_unseen)

lemma drop_duplicates_rows_set: "set (drop_duplicates_rows xs) = set xs"
  by (simp add: drop_duplicates_rows_keep_unseen set_keep_unseen)

lemma drop_duplicates_rows_subseq: "subseq (drop_duplicates_rows xs) xs"
  by (simp add: drop_duplicates_rows_keep_unseen subseq_keep_unseen)

lemma drop_duplicates_rows_absorb:
  "drop_duplicates_rows (drop_duplicates_rows xs @ ys) = drop_duplicates_rows (xs @ ys)"
  by (simp add: drop_duplicates_rows_keep_unseen keep_unseen_absorb)

lemma drop_duplicates_rows_distinct_id: "distinct xs \<Longrightarrow> drop_duplicates_rows xs = xs"
  by (simp add: drop_duplicates_rows_keep_unseen keep_unseen_id)

lemma drop_duplicates_rows_prefix:
  "distinct xs \<Longrightarrow> prefix xs (drop_duplicates_rows (xs @ ys))"
  by (simp add: drop_duplicates_rows_keep_unseen keep_unseen_append keep_unseen_id)

lemma drop_duplicates_rows_Nil: "drop_duplicates_rows [] = []"
  by (simp add: drop_duplicates_rows_keep_unseen)

section \<open>Selecting and aligning columns\<close>

lemma positions_single:
  assumes "distinct labels" and "c \<in> set labels"
  shows "\<exists>i < length labels. positions labels c = [i] \<and> labels ! i = c"
proof -
  from assms(2) obtain i where i: "i < length labels" "labels ! i = c"
    by (auto simp: in_set_conv_nth)
  have split: "[0..<length labels] = [0..<i] @ i # [Suc i..<length labels]"
    using i(1) by (metis less_imp_le_nat upt_add_eq_append upt_conv_Cons le0 le_add_diff_inverse add.left_neutral)
  have lo: "filter (\<lambda>j. labels ! j = c) [0..<i] = []"
    using assms(1) i by (auto simp: filter_empty_conv nth_eq_iff_index_eq)
  have hi: "filter (\<lambda>j. labels ! j = c) [Suc i..<length labels] = []"
    using assms(1) i by (auto simp: filter_empty_conv nth_eq_iff_index_eq)
  have "positions labels c = [i]"
    unfolding positions_def split using lo hi i(2) by simp
  with i show ?thesis by blast
qed

lemma question_neq_answer: "question_column \<noteq> answer_column"
  by (simp add: question_column_def answer_column_def)

lemma select_required:
  assumes "distinct (columns df)" and "list_all (\<lambda>col. col \<in> set (columns df)) required_columns"
  shows "columns (select_columns df required_columns) = required_columns"
    and "list_all (\<lambda>r. length r = 2) (rows (select_columns df required_columns))"
proof -
  from assms(2) have q: "question_column \<in> set (columns df)" and a: "answer_column \<in> set (columns df)"
    by (simp_all add: required_columns_def)
  from positions_single [OF assms(1) q] obtain i where
    i: "positions (columns df) question_column = [i]" "columns df ! i = question_column" by blast
  from positions_single [OF assms(1) a] obtain j where
    j: "positions (columns df) answer_column = [j]" "columns df ! j = answer_column" by blast
  show "columns (select_columns df required_columns) = required_columns"
    by (simp add: select_columns_def required_columns_def i j)
  show "list_all (\<lambda>r. length r = 2) (rows (select_columns df required_columns))"
    by (simp add: select_columns_def required_columns_def i j list_all_iff)
qed

lemma reindex_required:
  "length r = 2 \<Longrightarrow> reindex required_columns required_columns r = r"
proof -
  assume "length r = 2"
  then obtain x y where "r = [x, y]"
    by (metis (no_types, opaque_lifting) length_0_conv length_Suc_conv numeral_2_eq_2)
  then show ?thesis
    using question_neq_answer by (auto simp: reindex_def required_columns_def)
qed

section \<open>One file\<close>

lemma concat_frames_ok:
  assumes "dataset_ok a" and "columns b = required_columns"
    and "list_all (\<lambda>r. length r = 2) (rows b)"
  shows "concat_frames a b = \<lparr>columns = required_columns, rows = rows a @ rows b\<rparr>"
proof -
  have b: "map (reindex required_columns required_columns) (rows b) = rows b"
    using assms(3) by (intro map_idI) (simp add: list_all_iff reindex_required)
  from assms(1) consider
      (fresh) "columns a = []" "rows a = []"
    | (full) "columns a = required_columns" "list_all (\<lambda>r. length r = 2) (rows a)"
    by (auto simp: dataset_ok_def)
  then show ?thesis
  proof cases
    case fresh
    then show ?thesis
      by (simp add: concat_frames_def assms(2) b)
  next
    case full
    have a: "map (reindex required_columns required_columns) (rows a) = rows a"
      using full(2) by (intro map_idI) (simp add: list_all_iff reindex_required)
    have "filter (\<lambda>c. c \<notin> set required_columns) required_columns = []"
      by (simp add: filter_empty_conv)
    then show ?thesis
      by (simp add: concat_frames_def assms(2) full(1) a b)
  qed
qed

lemma fold_count:
  "fold (\<lambda>idx c. if Q idx then c + 1 else c) is (c0::nat) = c0 + length (filter Q is)"
  by (induction "is" arbitrary: c0) simp_all

lemma count_duplicates_append:
  "count_duplicates \<lparr>columns = cs, rows = old @ new\<rparr> (length old) (length (old @ new))
   = duplicates_of old new"
proof (cases "old = []")
  case True
  then show ?thesis
    by (simp add: count_duplicates_def duplicates_of_def)
next
  case False
  let ?Q = "\<lambda>idx. (old @ new) ! idx \<in> set old"
  have range: "[length old..<length old + length new] = map (\<lambda>k. k + length old) [0..<length new]"
    by (simp add: map_add_upt add.commute)
  have "length (filter ?Q [length old..<length old + length new])
        = length (filter (\<lambda>k. new ! k \<in> set old) [0..<length new])"
    unfolding range by (simp add: filter_map o_def nth_append)
  also have "\<dots> = length (filter (\<lambda>r. r \<in> set old) (map (\<lambda>k. new ! k) [0..<length new]))"
    by (simp add: filter_map o_def)
  also have "\<dots> = length (filter (\<lambda>r. r \<in> set old) new)"
    by (simp add: map_nth)
  finally have "length (filter ?Q [length old..<length old + length new]) = duplicates_of old new"
    by (simp add: duplicates_of_def)
  moreover have "is_duplicate \<lparr>columns = cs, rows = old @ new\<rparr> (length old) = ?Q"
    by (rule ext) (simp add: is_duplicate_def list_ex_iff)
  ultimately show ?thesis
    using False by (simp add: count_duplicates_def fold_count)
qed

lemma process_file_well_formed:
  assumes "read_excel f = Loaded df" and "wf_frame df"
    and "list_all (\<lambda>col. col \<in> set (columns df)) required_columns"
    and "dataset_ok (all_data s)"
  shows "process_file i n f s =
    \<lparr>all_data = \<lparr>columns = required_columns,
        rows = drop_duplicates_rows (rows (all_data s) @ rows (select_columns df required_columns))\<rparr>,
     total_rows_before = total_rows_before s + length (rows df),
     total_duplicates = total_duplicates s
        + duplicates_of (rows (all_data s)) (rows (select_columns df required_columns)),
     console = console s @
       [Processing i n (file_name f), FileContains (length (rows df)) (length (columns df)),
        Filtered,
        MergeReport (duplicates_of (rows (all_data s)) (rows (select_columns df required_columns)))
          (length (drop_duplicates_rows
             (rows (all_data s) @ rows (select_columns df required_columns))))]\<rparr>"
proof -
  from assms(2) have d: "distinct (columns df)"
    by (simp add: wf_frame_def)
  note sel = select_required [OF d assms(3)]
  have cat: "concat_frames (all_data s) (select_columns df required_columns)
      = \<lparr>columns = required_columns,
         rows = rows (all_data s) @ rows (select_columns df required_columns)\<rparr>"
    by (rule concat_frames_ok [OF assms(4) sel])
  have none: "filter (\<lambda>col. col \<notin> set (columns df)) required_columns = []"
    using assms(3) by (simp add: filter_empty_conv list_all_iff)
  show ?thesis
    unfolding process_file_def Let_def
    by (simp add: assms(1) none say_def cat drop_duplicates_def
          count_duplicates_append [of required_columns "rows (all_data s)", simplified])
qed

lemma process_file_raises:
  "read_excel f = Raises e \<Longrightarrow>
   process_file i n f s = s\<lparr>console := console s @ [Processing i n (file_name f), ReadFailed e]\<rparr>"
  by (simp add: process_file_def say_def)

lemma process_file_missing:
  assumes "read_excel f = Loaded df"
    and "\<not> list_all (\<lambda>col. col \<in> set (columns df)) required_columns"
  shows "process_file i n f s = s\<lparr>console := console s @
     [Processing i n (file_name f), FileContains (length (rows df)) (length (columns df)),
      MissingColumns (filter (\<lambda>col. col \<notin> set (columns df)) required_columns) (columns df)]\<rparr>"
proof -
  have "filter (\<lambda>col. col \<notin> set (columns df)) required_columns \<noteq> []"
    using assms(2) by (simp add: filter_empty_conv list_all_iff)
  then show ?thesis
    by (simp add: process_file_def say_def assms(1) Let_def)
qed

section \<open>The loop over the files\<close>

lemma dataset_ok_initial: "dataset_ok (all_data (initial n))"
  by (simp add: dataset_ok_def initial_def DataFrame_def)

lemma well_formed_cases:
  obtains (raises) e where "read_excel f = Raises e" "\<not> well_formed f"
  | (missing) df where "read_excel f = Loaded df"
      "\<not> list_all (\<lambda>col. col \<in> set (columns df)) required_columns" "\<not> well_formed f"
  | (good) df where "read_excel f = Loaded df"
      "list_all (\<lambda>col. col \<in> set (columns df)) required_columns" "well_formed f"
      "loaded_frame f = df"
  by (cases "read_excel f") (auto simp: well_formed_def loaded_frame_def)

lemma process_file_rows:
  assumes "wf_source f" and "dataset_ok (all_data s)"
  shows "rows (all_data (process_file i n f s))
         = drop_duplicates_rows (rows (all_data s) @ accepted_rows f)"
proof (cases f rule: well_formed_cases)
  case (raises e)
  with assms(2) show ?thesis
    by (simp add: process_file_raises accepted_rows_def dataset_ok_def
          drop_duplicates_rows_distinct_id)
next
  case (missing df)
  with assms(2) show ?thesis
    by (simp add: process_file_missing accepted_rows_def dataset_ok_def
          drop_duplicates_rows_distinct_id)
next
  case (good df)
  from assms(1) good(1) have "wf_frame df"
    by (simp add: wf_source_def)
  from process_file_well_formed [OF good(1) this good(2) assms(2)] good show ?thesis
    by (simp add: accepted_rows_def projected_rows_def)
qed

lemma process_file_columns:
  assumes "wf_source f" and "dataset_ok (all_data s)"
  shows "columns (all_data (process_file i n f s))
         = (if well_formed f then required_columns else columns (all_data s))"
proof (cases f rule: well_formed_cases)
  case (raises e)
  then show ?thesis by (simp add: process_file_raises)
next
  case (missing df)
  then show ?thesis by (simp add: process_file_missing)
next
  case (good df)
  from assms(1) good(1) have "wf_frame df"
    by (simp add: wf_source_def)
  from process_file_well_formed [OF good(1) this good(2) assms(2)] good show ?thesis
    by simp
qed

lemma process_file_ok:
  assumes "wf_source f" and "dataset_ok (all_data s)"
  shows "dataset_ok (all_data (process_file i n f s))"
proof (cases f rule: well_formed_cases)
  case (raises e)
  with assms(2) show ?thesis by (simp add: process_file_raises)
next
  case (missing df)
  with assms(2) show ?thesis by (simp add: process_file_missing)
next
  case (good df)
  from assms(1) good(1) have wf: "wf_frame df"
    by (simp add: wf_source_def)
  then have "distinct (columns df)"
    by (simp add: wf_frame_def)
  from select_required(2) [OF this good(2)]
  have two: "\<forall>r \<in> set (rows (select_columns df required_columns)). length r = 2"
    by (simp add: list_all_iff)
  from assms(2) have old: "\<forall>r \<in> set (rows (all_data s)). length r = 2"
    by (auto simp: dataset_ok_def list_all_iff)
  from process_file_well_formed [OF good(1) wf good(2) assms(2)] two old show ?thesis
    by (auto simp add: dataset_ok_def drop_duplicates_rows_distinct drop_duplicates_rows_set
          list_all_iff)
qed

lemma process_file_total_rows:
  "total_rows_before (process_file i n f s) = total_rows_before s + rows_read f"
proof (cases f rule: well_formed_cases)
  case (raises e)
  then show ?thesis by (simp add: process_file_raises rows_read_def)
next
  case (missing df)
  then show ?thesis by (simp add: process_file_missing rows_read_def)
next
  case (good df)
  have "filter (\<lambda>col. col \<notin> set (columns df)) required_columns = []"
    using good(2) by (simp add: filter_empty_conv list_all_iff)
  with good show ?thesis
    by (simp add: process_file_def say_def Let_def rows_read_def)
qed

lemma process_files_append:
  "process_files i n (xs @ ys) s = process_files (i + length xs) n ys (process_files i n xs s)"
  by (induction xs arbitrary: i s) simp_all

lemma process_files_ok:
  "wf_sources fs \<Longrightarrow> dataset_ok (all_data s) \<Longrightarrow> dataset_ok (all_data (process_files i n fs s))"
  by (induction fs arbitrary: i s) (simp_all add: wf_sources_def process_file_ok)

lemma process_files_rows:
  "wf_sources fs \<Longrightarrow> dataset_ok (all_data s) \<Longrightarrow>
   rows (all_data (process_files i n fs s))
   = drop_duplicates_rows (rows (all_data s) @ concat (map accepted_rows fs))"
proof (induction fs arbitrary: i s)
  case Nil
  then show ?case
    by (simp add: dataset_ok_def drop_duplicates_rows_distinct_id)
next
  case (Cons f fs)
  from Cons.prems have f: "wf_source f" and fs: "wf_sources fs"
    by (simp_all add: wf_sources_def)
  have ok: "dataset_ok (all_data (process_file i n f s))"
    using f Cons.prems(2) by (rule process_file_ok)
  have "rows (all_data (process_files i n (f # fs) s))
      = drop_duplicates_rows
          (drop_duplicates_rows (rows (all_data s) @ accepted_rows f) @ concat (map accepted_rows fs))"
    using Cons.IH [OF fs ok] process_file_rows [OF f Cons.prems(2)] by simp
  also have "\<dots> = drop_duplicates_rows
      ((rows (all_data s) @ accepted_rows f) @ concat (map accepted_rows fs))"
    by (rule drop_duplicates_rows_absorb)
  finally show ?case by simp
qed

lemma process_files_columns:
  "wf_sources fs \<Longrightarrow> dataset_ok (all_data s) \<Longrightarrow>
   columns (all_data (process_files i n fs s))
   = (if list_ex well_formed fs then required_columns else columns (all_data s))"
proof (induction fs arbitrary: i s)
  case Nil
  show ?case by simp
next
  case (Cons f fs)
  from Cons.prems have f: "wf_source f" and fs: "wf_sources fs"
    by (simp_all add: wf_sources_def)
  have ok: "dataset_ok (all_data (process_file i n f s))"
    using f Cons.prems(2) by (rule process_file_ok)
  show ?case
    using Cons.IH [OF fs ok] process_file_columns [OF f Cons.prems(2)] by simp
qed

lemma process_files_total_rows:
  "total_rows_before (process_files i n fs s)
   = total_rows_before s + sum_list (map rows_read fs)"
  by (induction fs arbitrary: i s) (simp_all add: process_file_total_rows)

section \<open>The sample files evaluated\<close>

lemmas sample_defs = file_one_def file_two_def file_twice_def file_other_names_def
  file_corrupt_def

lemma sample_wf:
  "wf_source file_one" "wf_source file_two" "wf_source file_twice"
  "wf_source file_other_names" "wf_source file_corrupt"
  by (simp_all add: sample_defs wf_source_def wf_frame_def required_columns_def
        question_column_def answer_column_def)

lemma sample_well_formed:
  "well_formed file_one" "well_formed file_two" "well_formed file_twice"
  "\<not> well_formed file_other_names" "\<not> well_formed file_corrupt"
  by (simp_all add: sample_defs well_formed_def required_columns_def
        question_column_def answer_column_def)

lemma sample_projected:
  "projected_rows file_one = [[Text ''Q1'', Text ''A1''], [Text ''Q2'', Text ''A2'']]"
  "projected_rows file_two = [[Text ''Q1'', Text ''A1''], [Text ''Q3'', Text ''A3'']]"
  "projected_rows file_twice = [[Text ''Q1'', Text ''A1''], [Text ''Q1'', Text ''A1'']]"
  by (simp_all add: sample_defs projected_rows_def loaded_frame_def select_columns_def
        positions_def required_columns_def question_column_def answer_column_def)

lemma sample_accepted:
  "accepted_rows file_one = [[Text ''Q1'', Text ''A1''], [Text ''Q2'', Text ''A2'']]"
  "accepted_rows file_two = [[Text ''Q1'', Text ''A1''], [Text ''Q3'', Text ''A3'']]"
  "accepted_rows file_twice = [[Text ''Q1'', Text ''A1''], [Text ''Q1'', Text ''A1'']]"
  "accepted_rows file_other_names = []"
  "accepted_rows file_corrupt = []"
  by (simp_all add: accepted_rows_def sample_well_formed sample_projected)

lemma sample_run_one:
  "rows (all_data (process_files 1 2 [file_one] (initial 2)))
   = [[Text ''Q1'', Text ''A1''], [Text ''Q2'', Text ''A2'']]"
proof -
  have "wf_sources [file_one]"
    by (simp add: wf_sources_def sample_wf)
  then have "rows (all_data (process_files 1 2 [file_one] (initial 2)))
    = drop_duplicates_rows (rows (all_data (initial 2)) @ concat (map accepted_rows [file_one]))"
    using dataset_ok_initial by (rule process_files_rows)
  also have "\<dots> = [[Text ''Q1'', Text ''A1''], [Text ''Q2'', Text ''A2'']]"
    by (simp add: sample_accepted initial_def DataFrame_def drop_duplicates_rows_keep_unseen)
  finally show ?thesis .
qed

lemma duplicates_of_set:
  "set prior = set prior' \<Longrightarrow> duplicates_of prior new = duplicates_of prior' new"
  by (simp add: duplicates_of_def)

lemma process_file_report:
  assumes "wf_source f" and "well_formed f" and "dataset_ok (all_data s)"
  shows "last (console (process_file i n f s))
    = MergeReport (duplicates_of (rows (all_data s)) (projected_rows f))
        (length (rows (all_data (process_file i n f s))))"
proof (cases f rule: well_formed_cases)
  case (good df)
  from assms(1) good(1) have "wf_frame df"
    by (simp add: wf_source_def)
  from process_file_well_formed [OF good(1) this good(2) assms(3)] good(4) show ?thesis
    by (simp add: projected_rows_def)
qed (use assms(2) in simp_all)

section \<open>The whole run\<close>

lemma merge_xlsx_files_loop:
  assumes "filesystem input_folder = Some files" and "files \<noteq> []"
  shows "ended (merge_xlsx_files filesystem input_folder output_file)
           = Inr (process_files 1 (length files) files (initial (length files)))"
    and "written (merge_xlsx_files filesystem input_folder output_file)
           = (if empty (all_data (process_files 1 (length files) files (initial (length files))))
              then None
              else Some (output_file,
                all_data (process_files 1 (length files) files (initial (length files)))))"
    and "printed (merge_xlsx_files filesystem input_folder output_file)
           = console (process_files 1 (length files) files (initial (length files)))
             @ [Statistics
                  (total_rows_before (process_files 1 (length files) files (initial (length files))))
                  (total_duplicates (process_files 1 (length files) files (initial (length files))))
                  (length (rows (all_data
                     (process_files 1 (length files) files (initial (length files)))))),
                if empty (all_data (process_files 1 (length files) files (initial (length files))))
                then NothingToExport
                else Exported output_file
                  (columns (all_data (process_files 1 (length files) files (initial (length files)))))
                  (length (rows (all_data
                     (process_files 1 (length files) files (initial (length files))))))]"
  using assms by (simp_all add: merge_xlsx_files_def Let_def del: process_files.simps)

lemma process_files_rows_initial:
  assumes "wf_sources fs"
  shows "rows (all_data (process_files i n fs (initial n)))
         = drop_duplicates_rows (concat (map accepted_rows fs))"
  using process_files_rows [OF assms dataset_ok_initial, of i n n]
  by (simp add: initial_def DataFrame_def)

lemma accepted_rows_all_well_formed:
  "list_all well_formed fs \<Longrightarrow> map accepted_rows fs = map projected_rows fs"
  by (simp add: list_all_iff accepted_rows_def)

lemma folder_with_here: "folder_with files ''xlsx_files'' = Some files"
  by (simp add: folder_with_def)

lemma sum_rows_read:
  "sum_list (map rows_read fs)
   = sum_list (map (\<lambda>f. length (rows (loaded_frame f))) (filter well_formed fs))"
  by (induction fs) (simp_all add: rows_read_def)

lemma process_files_all_skipped:
  "\<not> list_ex well_formed fs \<Longrightarrow> all_data (process_files i n fs s) = all_data s"
proof (induction fs arbitrary: i s)
  case Nil
  show ?case by simp
next
  case (Cons f fs)
  then have f: "\<not> well_formed f" and fs: "\<not> list_ex well_formed fs"
    by simp_all
  have "all_data (process_file i n f s) = all_data s"
  proof (cases f rule: well_formed_cases)
    case (raises e)
    then show ?thesis by (simp add: process_file_raises)
  next
    case (missing df)
    then show ?thesis by (simp add: process_file_missing)
  next
    case (good df)
    with f show ?thesis by simp
  qed
  with Cons.IH [OF fs, of "Suc i" "process_file i n f s"] show ?case
    by simp
qed

lemma after_files_0: "all_data (after_files files 0) = DataFrame"
  by (simp add: after_files_def initial_def)

lemma process_files_single: "process_files i n [f] s = process_file i n f s"
  by simp

lemma after_files_Suc:
  assumes "k < length files"
  shows "after_files files (Suc k)
         = process_file (Suc k) (length files) (files ! k) (after_files files k)"
proof -
  have "take (Suc k) files = take k files @ [files ! k]"
    using assms by (rule take_Suc_conv_app_nth)
  moreover have "length (take k files) = k"
    using assms by simp
  ultimately show ?thesis
    by (simp add: after_files_def process_files_append process_files_single
          del: process_files.simps(2))
qed

lemma after_files_all:
  "after_files files (length files)
   = process_files 1 (length files) files (initial (length files))"
  by (simp add: after_files_def)

lemma wf_sources_take: "wf_sources fs \<Longrightarrow> wf_sources (take k fs)"
  by (auto simp: wf_sources_def list_all_iff dest: in_set_takeD)

lemma after_files_ok: "wf_sources files \<Longrightarrow> dataset_ok (all_data (after_files files k))"
  unfolding after_files_def
  by (rule process_files_ok [OF wf_sources_take dataset_ok_initial])

lemma after_files_columns:
  assumes "wf_sources files"
  shows "columns (all_data (after_files files k))
         = (if list_ex well_formed (take k files) then required_columns else [])"
  unfolding after_files_def
  using process_files_columns [where fs = "take k files" and s = "initial (length files)"
      and i = 1 and n = "length files", OF wf_sources_take [OF assms] dataset_ok_initial]
  by (simp add: initial_def DataFrame_def del: process_files.simps)

section \<open>Properties of the merge\<close>

subsection \<open>Deduplication is idempotent\<close>

text \<open>
  Claim C9. Deduplication is idempotent: for every table \<open>X\<close>, dropping the duplicates
  of \<open>drop_duplicates X\<close> gives \<open>drop_duplicates X\<close> again.
\<close>

theorem drop_duplicates_idempotent:
  "drop_duplicates (drop_duplicates X) = drop_duplicates X"
  by (simp add: drop_duplicates_def drop_duplicates_rows_idem)

subsection \<open>The duplicate count of a file\<close>

text \<open>
  Claim C1. When a well-formed file is processed after any earlier files, the duplicate
  count printed for it is the number of its projected rows that are equal to some row
  of the table as it stood before the file's rows were appended; rows that are equal
  only to other rows of the same file do not count, so the count is 0 when that table
  has no rows.
\<close>

theorem reported_duplicate_count:
  assumes "wf_sources earlier" and "wf_source f" and "well_formed f"
  shows "last (console (process_file i n f (process_files j n earlier (initial n))))
     = MergeReport
         (duplicates_of (rows (all_data (process_files j n earlier (initial n))))
            (projected_rows f))
         (length (rows (all_data
            (process_file i n f (process_files j n earlier (initial n))))))
   \<and> (rows (all_data (process_files j n earlier (initial n))) = [] \<longrightarrow>
        duplicates_of (rows (all_data (process_files j n earlier (initial n))))
            (projected_rows f) = 0)"
proof -
  have "dataset_ok (all_data (process_files j n earlier (initial n)))"
    using assms(1) dataset_ok_initial by (rule process_files_ok)
  with assms(2,3) show ?thesis
    by (simp add: process_file_report duplicates_of_def)
qed

theorem reported_duplicate_count_witness:
  "last (console (process_file 2 2 file_two (process_files 1 2 [file_one] (initial 2))))
     = MergeReport 1 3
   \<and> last (console (process_file 1 1 file_twice (process_files 1 1 [] (initial 1))))
     = MergeReport 0 1"
proof -
  have one: "wf_sources [file_one]" and none: "wf_sources []"
    by (simp_all add: wf_sources_def sample_wf)
  have ok: "dataset_ok (all_data (process_files 1 2 [file_one] (initial 2)))"
    using one dataset_ok_initial by (rule process_files_ok)
  have "rows (all_data (process_file 2 2 file_two (process_files 1 2 [file_one] (initial 2))))
    = drop_duplicates_rows
        (rows (all_data (process_files 1 2 [file_one] (initial 2))) @ accepted_rows file_two)"
    using sample_wf(2) ok by (rule process_file_rows)
  also have "\<dots> = [[Text ''Q1'', Text ''A1''], [Text ''Q2'', Text ''A2''],
      [Text ''Q3'', Text ''A3'']]"
    unfolding sample_run_one
    by (simp add: sample_accepted drop_duplicates_rows_keep_unseen)
  finally have three: "length (rows (all_data (process_file 2 2 file_two
      (process_files 1 2 [file_one] (initial 2))))) = 3"
    by simp
  have "rows (all_data (process_file 1 1 file_twice (process_files 1 1 [] (initial 1))))
    = drop_duplicates_rows
        (rows (all_data (process_files 1 1 [] (initial 1))) @ accepted_rows file_twice)"
    using sample_wf(3) by (rule process_file_rows) (simp add: dataset_ok_initial)
  also have "\<dots> = [[Text ''Q1'', Text ''A1'']]"
    by (simp add: sample_accepted drop_duplicates_rows_keep_unseen initial_def DataFrame_def)
  finally have single: "length (rows (all_data (process_file 1 1 file_twice
      (process_files 1 1 [] (initial 1))))) = 1"
    by simp
  have first: "last (console (process_file 2 2 file_two
      (process_files 1 2 [file_one] (initial 2)))) = MergeReport 1 3"
    using reported_duplicate_count [OF one sample_wf(2) sample_well_formed(2), of 2 2 1]
    unfolding three sample_run_one
    by (simp add: sample_projected duplicates_of_def)
  have second: "last (console (process_file 1 1 file_twice
      (process_files 1 1 [] (initial 1)))) = MergeReport 0 1"
    using reported_duplicate_count [OF none sample_wf(3) sample_well_formed(3), of 1 1 1]
    unfolding single
    by (simp add: sample_projected duplicates_of_def initial_def DataFrame_def)
  from first second show ?thesis by (rule conjI)
qed

text \<open>
  Claim C3. The duplicate count printed for a well-formed file equals the count taken
  against the rows of all earlier well-formed files as they were read, concatenated and
  not deduplicated, although the table the file is compared with was deduplicated at
  the end of every earlier file.
\<close>

theorem duplicate_count_against_raw_rows:
  assumes "wf_sources earlier" and "wf_source f" and "well_formed f"
  shows "last (console (process_file i n f (process_files j n earlier (initial n))))
     = MergeReport
         (duplicates_of (concat (map accepted_rows earlier)) (projected_rows f))
         (length (rows (all_data
            (process_file i n f (process_files j n earlier (initial n))))))"
proof -
  let ?s = "process_files j n earlier (initial n)"
  have ok: "dataset_ok (all_data ?s)"
    using assms(1) dataset_ok_initial by (rule process_files_ok)
  have "set (rows (all_data ?s)) = set (concat (map accepted_rows earlier))"
    unfolding process_files_rows_initial [OF assms(1)] by (rule drop_duplicates_rows_set)
  then have "duplicates_of (rows (all_data ?s)) (projected_rows f)
      = duplicates_of (concat (map accepted_rows earlier)) (projected_rows f)"
    by (rule duplicates_of_set)
  with process_file_report [OF assms(2,3) ok, of i n] show ?thesis
    by simp
qed

theorem duplicate_count_against_raw_rows_witness:
  "concat (map accepted_rows [file_twice, file_corrupt, file_one])
     = [[Text ''Q1'', Text ''A1''], [Text ''Q1'', Text ''A1''],
        [Text ''Q1'', Text ''A1''], [Text ''Q2'', Text ''A2'']]
   \<and> last (console (process_file 4 4 file_two
        (process_files 1 4 [file_twice, file_corrupt, file_one] (initial 4))))
     = MergeReport 1 3"
proof -
  have wf: "wf_sources [file_twice, file_corrupt, file_one]"
    by (simp add: wf_sources_def sample_wf)
  have raw: "concat (map accepted_rows [file_twice, file_corrupt, file_one])
     = [[Text ''Q1'', Text ''A1''], [Text ''Q1'', Text ''A1''],
        [Text ''Q1'', Text ''A1''], [Text ''Q2'', Text ''A2'']]"
    by (simp add: sample_accepted)
  have ok: "dataset_ok (all_data
      (process_files 1 4 [file_twice, file_corrupt, file_one] (initial 4)))"
    using wf dataset_ok_initial by (rule process_files_ok)
  have "rows (all_data (process_file 4 4 file_two
        (process_files 1 4 [file_twice, file_corrupt, file_one] (initial 4))))
    = drop_duplicates_rows
        (rows (all_data (process_files 1 4 [file_twice, file_corrupt, file_one] (initial 4)))
         @ accepted_rows file_two)"
    using sample_wf(2) ok by (rule process_file_rows)
  also have "\<dots> = [[Text ''Q1'', Text ''A1''], [Text ''Q2'', Text ''A2''],
      [Text ''Q3'', Text ''A3'']]"
    unfolding process_files_rows_initial [OF wf] raw
    by (simp add: sample_accepted drop_duplicates_rows_keep_unseen)
  finally have three: "length (rows (all_data (process_file 4 4 file_two
        (process_files 1 4 [file_twice, file_corrupt, file_one] (initial 4))))) = 3"
    by simp
  have "last (console (process_file 4 4 file_two
        (process_files 1 4 [file_twice, file_corrupt, file_one] (initial 4))))
     = MergeReport 1 3"
    using duplicate_count_against_raw_rows [OF wf sample_wf(2) sample_well_formed(2), of 4 4 1]
    unfolding three raw
    by (simp add: sample_projected duplicates_of_def)
  with raw show ?thesis by (rule conjI)
qed

subsection \<open>The merged table\<close>

text \<open>
  Claim C2. For well-formed files, the table at the end of the run (which is the table
  written, unless it has no rows) holds the first occurrences of the concatenation of
  the files' projected rows: the rows not equal to an earlier row, in their order. No
  two of its rows are equal, every row read is in it, and it is a subsequence of the
  concatenation, so rows kept stand in the order in which they were appended.
\<close>

theorem merged_rows_first_occurrences:
  assumes "filesystem input_folder = Some files" and "files \<noteq> []"
    and "wf_sources files" and "list_all well_formed files"
  shows "\<exists>s. ended (merge_xlsx_files filesystem input_folder output_file) = Inr s
     \<and> rows (all_data s) = drop_duplicates_rows (concat (map projected_rows files))
     \<and> distinct (rows (all_data s))
     \<and> set (rows (all_data s)) = set (concat (map projected_rows files))
     \<and> subseq (rows (all_data s)) (concat (map projected_rows files))
     \<and> written (merge_xlsx_files filesystem input_folder output_file)
         = (if rows (all_data s) = [] then None else Some (output_file, all_data s))"
proof -
  let ?s = "process_files 1 (length files) files (initial (length files))"
  have rows: "rows (all_data ?s) = drop_duplicates_rows (concat (map projected_rows files))"
    using process_files_rows_initial [OF assms(3), of 1 "length files"]
      accepted_rows_all_well_formed [OF assms(4)] by simp
  have "list_ex well_formed files"
    using assms(2,4) by (cases files) simp_all
  then have cols: "columns (all_data ?s) = required_columns"
    using process_files_columns [OF assms(3) dataset_ok_initial, of 1 "length files" "length files"]
    by simp
  then have "empty (all_data ?s) \<longleftrightarrow> rows (all_data ?s) = []"
    by (simp add: empty_def required_columns_def)
  with merge_xlsx_files_loop [where filesystem = filesystem and input_folder = input_folder
      and output_file = output_file, OF assms(1,2)] rows show ?thesis
    by (simp add: drop_duplicates_rows_distinct drop_duplicates_rows_set
          drop_duplicates_rows_subseq del: process_files.simps)
qed

theorem merged_rows_first_occurrences_witness:
  "\<exists>s. ended (merge_xlsx_files (folder_with [file_one, file_two]) ''xlsx_files''
            ''merged_output.csv'') = Inr s
     \<and> rows (all_data s) = [[Text ''Q1'', Text ''A1''], [Text ''Q2'', Text ''A2''],
          [Text ''Q3'', Text ''A3'']]
     \<and> written (merge_xlsx_files (folder_with [file_one, file_two]) ''xlsx_files''
            ''merged_output.csv'') = Some (''merged_output.csv'', all_data s)"
proof -
  have wf: "wf_sources [file_one, file_two]"
    by (simp add: wf_sources_def sample_wf)
  have good: "list_all well_formed [file_one, file_two]"
    by (simp add: sample_well_formed)
  have dedup: "drop_duplicates_rows (concat (map projected_rows [file_one, file_two]))
      = [[Text ''Q1'', Text ''A1''], [Text ''Q2'', Text ''A2''], [Text ''Q3'', Text ''A3'']]"
    by (simp add: sample_projected drop_duplicates_rows_keep_unseen)
  from merged_rows_first_occurrences [where filesystem = "folder_with [file_one, file_two]"
      and input_folder = "''xlsx_files''" and output_file = "''merged_output.csv''",
      OF folder_with_here _ wf good]
  obtain s where
    "ended (merge_xlsx_files (folder_with [file_one, file_two]) ''xlsx_files''
        ''merged_output.csv'') = Inr s"
    "rows (all_data s) = drop_duplicates_rows (concat (map projected_rows [file_one, file_two]))"
    "written (merge_xlsx_files (folder_with [file_one, file_two]) ''xlsx_files''
        ''merged_output.csv'') = (if rows (all_data s) = [] then None
          else Some (''merged_output.csv'', all_data s))"
    by auto
  then show ?thesis
    unfolding dedup by (intro exI [of _ s]) simp
qed

subsection \<open>Skipped files and the rows read\<close>

text \<open>
  Claim C6. At the end of a run, the number of rows read that is printed (the first
  number of the statistics) is the sum, over the well-formed files only, of the number
  of rows of the file as loaded, before the two columns are selected; a skipped file
  adds nothing to it.
\<close>

theorem total_rows_read:
  assumes "filesystem input_folder = Some files" and "files \<noteq> []"
  shows "\<exists>s. ended (merge_xlsx_files filesystem input_folder output_file) = Inr s
     \<and> total_rows_before s
         = sum_list (map (\<lambda>f. length (rows (loaded_frame f))) (filter well_formed files))
     \<and> Statistics (total_rows_before s) (total_duplicates s) (length (rows (all_data s)))
         \<in> set (printed (merge_xlsx_files filesystem input_folder output_file))"
proof -
  let ?s = "process_files 1 (length files) files (initial (length files))"
  have "total_rows_before ?s = sum_list (map rows_read files)"
    by (simp add: process_files_total_rows initial_def del: process_files.simps)
  then have "total_rows_before ?s
      = sum_list (map (\<lambda>f. length (rows (loaded_frame f))) (filter well_formed files))"
    by (simp only: sum_rows_read)
  with merge_xlsx_files_loop [where filesystem = filesystem and input_folder = input_folder
      and output_file = output_file, OF assms]
  show ?thesis
    by (simp del: process_files.simps)
qed

theorem total_rows_read_witness:
  "\<exists>s. ended (merge_xlsx_files
        (folder_with [file_one, file_other_names, file_corrupt, file_two])
        ''xlsx_files'' ''merged_output.csv'') = Inr s
     \<and> total_rows_before s = 4"
proof -
  have sum: "sum_list (map (\<lambda>f. length (rows (loaded_frame f)))
      (filter well_formed [file_one, file_other_names, file_corrupt, file_two])) = 4"
    by (simp add: sample_well_formed) (simp add: loaded_frame_def sample_defs)
  from total_rows_read [where filesystem =
        "folder_with [file_one, file_other_names, file_corrupt, file_two]"
      and input_folder = "''xlsx_files''" and output_file = "''merged_output.csv''",
      OF folder_with_here]
  show ?thesis
    unfolding sum by auto
qed

text \<open>
  Claim C5. A file that fails to load, or that lacks at least one required column, is
  skipped and the loop goes on with the next file: the step only prints, no duplicate
  count is printed for the file, and the table, the number of rows read and the number
  of duplicates are unchanged.
\<close>

theorem skipped_file_contributes_nothing:
  assumes "(\<exists>e. read_excel f = Raises e)
     \<or> (\<exists>df. read_excel f = Loaded df \<and> (\<exists>col \<in> set required_columns. col \<notin> set (columns df)))"
  shows "\<exists>msgs. process_file i n f s = s\<lparr>console := console s @ msgs\<rparr>
     \<and> (\<forall>d k. MergeReport d k \<notin> set msgs)
     \<and> all_data (process_file i n f s) = all_data s
     \<and> total_rows_before (process_file i n f s) = total_rows_before s
     \<and> total_duplicates (process_file i n f s) = total_duplicates s
     \<and> process_files i n (f # rest) s
         = process_files (Suc i) n rest (s\<lparr>console := console s @ msgs\<rparr>)"
  using assms
proof (elim disjE exE conjE)
  fix e
  assume "read_excel f = Raises e"
  then have "process_file i n f s
      = s\<lparr>console := console s @ [Processing i n (file_name f), ReadFailed e]\<rparr>"
    by (rule process_file_raises)
  then show ?thesis
    by (intro exI [of _ "[Processing i n (file_name f), ReadFailed e]"]) simp
next
  fix df
  assume df: "read_excel f = Loaded df"
    and "\<exists>col \<in> set required_columns. col \<notin> set (columns df)"
  then have "\<not> list_all (\<lambda>col. col \<in> set (columns df)) required_columns"
    by (simp add: list_all_iff)
  with df have "process_file i n f s = s\<lparr>console := console s @
     [Processing i n (file_name f), FileContains (length (rows df)) (length (columns df)),
      MissingColumns (filter (\<lambda>col. col \<notin> set (columns df)) required_columns) (columns df)]\<rparr>"
    by (rule process_file_missing)
  then show ?thesis
    by (intro exI [of _ "[Processing i n (file_name f),
          FileContains (length (rows df)) (length (columns df)),
          MissingColumns (filter (\<lambda>col. col \<notin> set (columns df)) required_columns)
            (columns df)]"]) simp
qed

theorem skipped_file_contributes_nothing_witness:
  "all_data (process_file 1 2 file_other_names (initial 2)) = DataFrame
   \<and> total_rows_before (process_file 1 2 file_other_names (initial 2)) = 0
   \<and> total_duplicates (process_file 1 2 file_other_names (initial 2)) = 0
   \<and> all_data (process_file 2 2 file_corrupt (initial 2)) = DataFrame
   \<and> total_rows_before (process_file 2 2 file_corrupt (initial 2)) = 0
   \<and> total_duplicates (process_file 2 2 file_corrupt (initial 2)) = 0"
proof -
  have other: "(\<exists>e. read_excel file_other_names = Raises e)
     \<or> (\<exists>df. read_excel file_other_names = Loaded df
          \<and> (\<exists>col \<in> set required_columns. col \<notin> set (columns df)))"
    by (simp add: file_other_names_def required_columns_def question_column_def)
  have corrupt: "(\<exists>e. read_excel file_corrupt = Raises e)
     \<or> (\<exists>df. read_excel file_corrupt = Loaded df
          \<and> (\<exists>col \<in> set required_columns. col \<notin> set (columns df)))"
    by (simp add: file_corrupt_def)
  from skipped_file_contributes_nothing [OF other, of 1 2 "initial 2" "[]"]
    skipped_file_contributes_nothing [OF corrupt, of 2 2 "initial 2" "[]"]
  show ?thesis
    by (auto simp: initial_def)
qed

subsection \<open>The export and the early returns\<close>

text \<open>
  Claim C7. A run that reaches the export ends normally. When the final table is empty,
  as it is when every file was skipped, no file is written and the last message says
  that there is nothing to export; when it is not empty, the table is written to the
  output path.
\<close>

theorem export_only_when_not_empty:
  assumes "filesystem input_folder = Some files" and "files \<noteq> []"
  shows "\<exists>s. ended (merge_xlsx_files filesystem input_folder output_file) = Inr s
     \<and> (empty (all_data s) \<longrightarrow>
          written (merge_xlsx_files filesystem input_folder output_file) = None
          \<and> last (printed (merge_xlsx_files filesystem input_folder output_file))
              = NothingToExport)
     \<and> (\<not> empty (all_data s) \<longrightarrow>
          written (merge_xlsx_files filesystem input_folder output_file)
            = Some (output_file, all_data s)
          \<and> last (printed (merge_xlsx_files filesystem input_folder output_file))
              = Exported output_file (columns (all_data s)) (length (rows (all_data s))))
     \<and> (\<not> list_ex well_formed files \<longrightarrow> empty (all_data s))"
proof -
  let ?s = "process_files 1 (length files) files (initial (length files))"
  have "\<not> list_ex well_formed files \<longrightarrow> empty (all_data ?s)"
    by (simp add: process_files_all_skipped initial_def DataFrame_def empty_def
          del: process_files.simps)
  with merge_xlsx_files_loop [where filesystem = filesystem and input_folder = input_folder
      and output_file = output_file, OF assms]
  show ?thesis
    by (simp del: process_files.simps)
qed

theorem export_only_when_not_empty_witness:
  "written (merge_xlsx_files (folder_with [file_other_names, file_corrupt]) ''xlsx_files''
      ''merged_output.csv'') = None
   \<and> last (printed (merge_xlsx_files (folder_with [file_other_names, file_corrupt])
      ''xlsx_files'' ''merged_output.csv'')) = NothingToExport
   \<and> written (merge_xlsx_files (folder_with [file_one]) ''xlsx_files''
      ''merged_output.csv'')
     = Some (''merged_output.csv'',
         \<lparr>columns = required_columns,
          rows = [[Text ''Q1'', Text ''A1''], [Text ''Q2'', Text ''A2'']]\<rparr>)"
proof -
  have skipped: "\<not> list_ex well_formed [file_other_names, file_corrupt]"
    by (simp add: sample_well_formed)
  from export_only_when_not_empty [where filesystem = "folder_with [file_other_names, file_corrupt]"
      and input_folder = "''xlsx_files''" and output_file = "''merged_output.csv''",
      OF folder_with_here] skipped
  have none: "written (merge_xlsx_files (folder_with [file_other_names, file_corrupt])
        ''xlsx_files'' ''merged_output.csv'') = None
    \<and> last (printed (merge_xlsx_files (folder_with [file_other_names, file_corrupt])
        ''xlsx_files'' ''merged_output.csv'')) = NothingToExport"
    by auto
  have wf: "wf_sources [file_one]"
    by (simp add: wf_sources_def sample_wf)
  have cols: "columns (all_data (process_files 1 (length [file_one]) [file_one]
      (initial (length [file_one])))) = required_columns"
    using process_files_columns [OF wf dataset_ok_initial, of 1 "length [file_one]" "length [file_one]"]
    by (simp add: sample_well_formed del: process_files.simps)
  have rows: "rows (all_data (process_files 1 (length [file_one]) [file_one]
      (initial (length [file_one]))))
      = [[Text ''Q1'', Text ''A1''], [Text ''Q2'', Text ''A2'']]"
    unfolding process_files_rows_initial [OF wf]
    by (simp add: sample_accepted drop_duplicates_rows_keep_unseen)
  have table: "all_data (process_files 1 (length [file_one]) [file_one]
      (initial (length [file_one])))
      = \<lparr>columns = required_columns,
         rows = [[Text ''Q1'', Text ''A1''], [Text ''Q2'', Text ''A2'']]\<rparr>"
    using cols rows by (cases "all_data (process_files 1 (length [file_one]) [file_one]
      (initial (length [file_one])))") simp
  have ended: "ended (merge_xlsx_files (folder_with [file_one]) ''xlsx_files''
      ''merged_output.csv'')
      = Inr (process_files 1 (length [file_one]) [file_one] (initial (length [file_one])))"
    by (rule merge_xlsx_files_loop(1) [where filesystem = "folder_with [file_one]"
          and input_folder = "''xlsx_files''", OF folder_with_here]) simp
  from export_only_when_not_empty [where filesystem = "folder_with [file_one]"
      and input_folder = "''xlsx_files''" and output_file = "''merged_output.csv''",
      OF folder_with_here]
  obtain s where s: "ended (merge_xlsx_files (folder_with [file_one]) ''xlsx_files''
        ''merged_output.csv'') = Inr s"
    and w: "\<not> empty (all_data s) \<longrightarrow>
          written (merge_xlsx_files (folder_with [file_one]) ''xlsx_files'' ''merged_output.csv'')
            = Some (''merged_output.csv'', all_data s)"
    by auto
  from s ended have "all_data s = \<lparr>columns = required_columns,
         rows = [[Text ''Q1'', Text ''A1''], [Text ''Q2'', Text ''A2'']]\<rparr>"
    using table by simp
  with w have "written (merge_xlsx_files (folder_with [file_one]) ''xlsx_files''
      ''merged_output.csv'')
     = Some (''merged_output.csv'',
         \<lparr>columns = required_columns,
          rows = [[Text ''Q1'', Text ''A1''], [Text ''Q2'', Text ''A2'']]\<rparr>)"
    by (simp add: empty_def required_columns_def)
  with none show ?thesis by simp
qed

text \<open>
  Claim C8, as stated, has the run fail with a \<open>NotFoundError\<close> when the input folder
  does not exist. No exception leaves the function on that path: lines 38 to 40 print
  a message and return.
\<close>

theorem missing_folder_raises_nothing:
  "returned (merge_xlsx_files (folder_with [file_one]) ''elsewhere'' ''merged_output.csv'')
     = Inr ()
   \<and> returned (merge_xlsx_files (folder_with [file_one]) ''elsewhere'' ''merged_output.csv'')
     \<noteq> Inl NotFoundError"
proof -
  have "folder_with [file_one] ''elsewhere'' = None"
    by (simp add: folder_with_def)
  then show ?thesis
    by (simp add: merge_xlsx_files_def)
qed

text \<open>
  Claim C8, amended. When the input folder does not exist, the function prints that the
  folder does not exist, and nothing else, and returns normally at line 40, without
  raising an exception; it processes no file and writes no output.
\<close>

theorem missing_folder_prints_and_returns:
  assumes "filesystem input_folder = None"
  shows "merge_xlsx_files filesystem input_folder output_file
     = \<lparr>printed = [FolderMissing input_folder], written = None,
        ended = Inl ReturnLine40, returned = Inr ()\<rparr>"
  using assms by (simp add: merge_xlsx_files_def)

theorem missing_folder_prints_and_returns_witness:
  "merge_xlsx_files (folder_with [file_one]) ''elsewhere'' ''merged_output.csv''
     = \<lparr>printed = [FolderMissing ''elsewhere''], written = None,
        ended = Inl ReturnLine40, returned = Inr ()\<rparr>"
proof -
  have "folder_with [file_one] ''elsewhere'' = None"
    by (simp add: folder_with_def)
  then show ?thesis
    by (rule missing_folder_prints_and_returns)
qed

subsection \<open>The columns of the table\<close>

text \<open>
  Claim C10, as stated, asks for the two required columns after the step of every file.
  It fails after a skipped file that no well-formed file precedes: the table is still
  the one of line 54, without columns.
\<close>

theorem no_columns_after_skipped_file:
  "columns (all_data (after_files [file_other_names, file_one] 1)) = []
   \<and> columns (all_data (after_files [file_other_names, file_one] 1)) \<noteq> required_columns"
proof -
  have "wf_sources [file_other_names, file_one]"
    by (simp add: wf_sources_def sample_wf)
  from after_files_columns [OF this, of 1] show ?thesis
    by (simp add: sample_well_formed required_columns_def)
qed

text \<open>
  Claim C10, amended. After the step of every file, the table has exactly the two
  required columns, in that order, when a well-formed file has been processed so far,
  whatever the order of the columns and the other columns of the files; it has no
  column before that. A table that is written always has exactly these two columns in
  this order.
\<close>

theorem columns_after_well_formed_file:
  assumes "filesystem input_folder = Some files" and "wf_sources files"
  shows "(\<forall>k \<le> length files.
            columns (all_data (after_files files k))
            = (if list_ex well_formed (take k files) then required_columns else []))
     \<and> (\<forall>path table.
            written (merge_xlsx_files filesystem input_folder output_file) = Some (path, table)
            \<longrightarrow> columns table = required_columns)"
proof (intro conjI allI impI)
  fix k
  show "columns (all_data (after_files files k))
      = (if list_ex well_formed (take k files) then required_columns else [])"
    using assms(2) by (rule after_files_columns)
next
  fix path table
  assume w: "written (merge_xlsx_files filesystem input_folder output_file) = Some (path, table)"
  show "columns table = required_columns"
  proof (cases "files = []")
    case True
    with assms(1) w show ?thesis
      by (simp add: merge_xlsx_files_def)
  next
    case False
    let ?s = "process_files 1 (length files) files (initial (length files))"
    from merge_xlsx_files_loop(2) [where filesystem = filesystem and input_folder = input_folder
        and output_file = output_file, OF assms(1) False] w
    have table: "table = all_data ?s" and "\<not> empty (all_data ?s)"
      by (simp_all del: process_files.simps split: if_splits)
    then have "columns (all_data ?s) \<noteq> []"
      by (simp add: empty_def)
    moreover have "columns (all_data ?s)
        = (if list_ex well_formed files then required_columns else [])"
      using after_files_columns [OF assms(2), of "length files"]
      by (simp add: after_files_all del: process_files.simps)
    ultimately show ?thesis
      using table by (simp split: if_splits)
  qed
qed

theorem columns_after_well_formed_file_witness:
  "columns (all_data (after_files [file_other_names, file_two] 0)) = []
   \<and> columns (all_data (after_files [file_other_names, file_two] 1)) = []
   \<and> columns (all_data (after_files [file_other_names, file_two] 2)) = required_columns"
proof -
  have wf: "wf_sources [file_other_names, file_two]"
    by (simp add: wf_sources_def sample_wf)
  have *: "\<forall>k \<le> length [file_other_names, file_two].
            columns (all_data (after_files [file_other_names, file_two] k))
            = (if list_ex well_formed (take k [file_other_names, file_two])
               then required_columns else [])"
    using columns_after_well_formed_file [where filesystem = "folder_with [file_other_names, file_two]"
      and input_folder = "''xlsx_files''", OF folder_with_here wf]
    by (rule conjunct1)
  from * [rule_format, of 0] * [rule_format, of 1] * [rule_format, of 2]
  show ?thesis
    by (simp add: sample_well_formed)
qed

subsection \<open>When the table is deduplicated\<close>

text \<open>
  Claim C4, as stated, has the table only grow while the files are read and lose rows
  once, after the last file. It fails on a first file that repeats a row: the table
  after that file has one row, not the two that were appended.
\<close>

theorem rows_dropped_between_files:
  "projected_rows file_twice = [[Text ''Q1'', Text ''A1''], [Text ''Q1'', Text ''A1'']]
   \<and> rows (all_data (after_files [file_twice, file_two] 0)) = []
   \<and> rows (all_data (after_files [file_twice, file_two] 1)) = [[Text ''Q1'', Text ''A1'']]
   \<and> rows (all_data (after_files [file_twice, file_two] 1))
       \<noteq> rows (all_data (after_files [file_twice, file_two] 0)) @ projected_rows file_twice"
proof -
  have wf: "wf_sources (take k [file_twice, file_two])" for k
    by (rule wf_sources_take) (simp add: wf_sources_def sample_wf)
  have zero: "rows (all_data (after_files [file_twice, file_two] 0)) = []"
    by (simp add: after_files_def initial_def DataFrame_def)
  have one: "rows (all_data (after_files [file_twice, file_two] 1)) = [[Text ''Q1'', Text ''A1'']]"
    unfolding after_files_def process_files_rows_initial [OF wf]
    by (simp add: sample_accepted drop_duplicates_rows_keep_unseen)
  show ?thesis
    unfolding zero one by (simp add: sample_projected)
qed

text \<open>
  Claim C4, amended. The table is empty at the start. The step of every file appends
  the rows the file contributes (none for a skipped file) and deduplicates the whole
  table at its end, so the table is deduplicated after every file; the table before a
  step is a prefix of the table after it, so no row once stored is lost. The export
  does not change the table: what is written is the table left by the last step.
\<close>

theorem deduplicated_after_every_file:
  assumes "filesystem input_folder = Some files" and "files \<noteq> []" and "wf_sources files"
  shows "all_data (after_files files 0) = DataFrame
     \<and> (\<forall>k < length files.
          rows (all_data (after_files files (Suc k)))
            = drop_duplicates_rows
                (rows (all_data (after_files files k)) @ accepted_rows (files ! k))
          \<and> prefix (rows (all_data (after_files files k)))
              (rows (all_data (after_files files (Suc k)))))
     \<and> ended (merge_xlsx_files filesystem input_folder output_file)
         = Inr (after_files files (length files))
     \<and> (\<forall>path table.
          written (merge_xlsx_files filesystem input_folder output_file) = Some (path, table)
          \<longrightarrow> table = all_data (after_files files (length files)))"
proof (intro conjI allI impI)
  show "all_data (after_files files 0) = DataFrame"
    by (rule after_files_0)
next
  fix k
  assume k: "k < length files"
  then have "wf_source (files ! k)"
    using assms(3) by (simp add: wf_sources_def list_all_length)
  then have step: "rows (all_data (after_files files (Suc k)))
      = drop_duplicates_rows (rows (all_data (after_files files k)) @ accepted_rows (files ! k))"
    unfolding after_files_Suc [OF k]
    using after_files_ok [OF assms(3)] by (rule process_file_rows)
  show "rows (all_data (after_files files (Suc k)))
      = drop_duplicates_rows (rows (all_data (after_files files k)) @ accepted_rows (files ! k))"
    by (rule step)
  have "distinct (rows (all_data (after_files files k)))"
    using after_files_ok [OF assms(3), of k] by (simp add: dataset_ok_def)
  then show "prefix (rows (all_data (after_files files k)))
      (rows (all_data (after_files files (Suc k))))"
    unfolding step by (rule drop_duplicates_rows_prefix)
next
  show "ended (merge_xlsx_files filesystem input_folder output_file)
      = Inr (after_files files (length files))"
    unfolding after_files_all
    by (rule merge_xlsx_files_loop(1) [where filesystem = filesystem
          and input_folder = input_folder, OF assms(1,2)])
next
  fix path table
  assume "written (merge_xlsx_files filesystem input_folder output_file) = Some (path, table)"
  with merge_xlsx_files_loop(2) [where filesystem = filesystem and input_folder = input_folder
      and output_file = output_file, OF assms(1,2)]
  show "table = all_data (after_files files (length files))"
    unfolding after_files_all by (simp del: process_files.simps split: if_splits)
qed

theorem deduplicated_after_every_file_witness:
  "rows (all_data (after_files [file_twice, file_two] (Suc 0)))
     = drop_duplicates_rows
         (rows (all_data (after_files [file_twice, file_two] 0))
          @ accepted_rows ([file_twice, file_two] ! 0))
   \<and> rows (all_data (after_files [file_twice, file_two] (Suc 1)))
     = drop_duplicates_rows
         (rows (all_data (after_files [file_twice, file_two] 1))
          @ accepted_rows ([file_twice, file_two] ! 1))
   \<and> ended (merge_xlsx_files (folder_with [file_twice, file_two]) ''xlsx_files''
        ''merged_output.csv'')
     = Inr (after_files [file_twice, file_two] (length [file_twice, file_two]))"
proof -
  have wf: "wf_sources [file_twice, file_two]"
    by (simp add: wf_sources_def sample_wf)
  note t = deduplicated_after_every_file [where filesystem = "folder_with [file_twice, file_two]"
      and input_folder = "''xlsx_files''" and output_file = "''merged_output.csv''",
      OF folder_with_here _ wf]
  have ne: "[file_twice, file_two] \<noteq> []"
    by simp
  from t [OF ne] have steps: "\<forall>k < length [file_twice, file_two].
          rows (all_data (after_files [file_twice, file_two] (Suc k)))
            = drop_duplicates_rows
                (rows (all_data (after_files [file_twice, file_two] k))
                 @ accepted_rows ([file_twice, file_two] ! k))
          \<and> prefix (rows (all_data (after_files [file_twice, file_two] k)))
              (rows (all_data (after_files [file_twice, file_two] (Suc k))))"
    and fin: "ended (merge_xlsx_files (folder_with [file_twice, file_two]) ''xlsx_files''
        ''merged_output.csv'')
     = Inr (after_files [file_twice, file_two] (length [file_twice, file_two]))"
    by blast+
  have "(0::nat) < length [file_twice, file_two]" and "(1::nat) < length [file_twice, file_two]"
    by simp_all
  from steps [rule_format, OF this(1)] steps [rule_format, OF this(2)] fin
  show ?thesis
    by blast
qed

end
